theory Spec2Isabelle
  imports Complex_Main "HOL-Library.Stream"
begin

section \<open>Points, objectives and evaluators (package optim)\<close>

text \<open>
  A \<open>float64\<close> is modelled as a \<open>real\<close>: arithmetic is exact, and the IEEE-754 special
  values (infinities, NaN, signed zero) are outside the model. A Go slice of \<open>float64\<close>
  is a \<open>real list\<close>; a \<open>nil\<close> slice and an empty slice are both \<open>[]\<close>.
\<close>

record Point =
  Pos :: "real list"
  Val :: real

text \<open>The zero value of the struct, as \<open>make([]Point, n)\<close> fills a fresh slice.\<close>

definition zeroPoint :: Point where
  "zeroPoint = \<lparr>Pos = [], Val = 0\<rparr>"

text \<open>
  \<open>Objectiver.Objective(v) (float64, error)\<close>. An implementation may keep state of its
  own (\<open>ObjectivePrinter\<close> counts its calls), so an objective is a state transformer over
  a world state \<open>'w\<close>; the Go \<open>error\<close> is an \<open>'e option\<close> with \<open>None\<close> for \<open>nil\<close>.
\<close>

type_synonym ('w, 'e) Objectiver = "real list \<Rightarrow> 'w \<Rightarrow> (real \<times> 'e option) \<times> 'w"

text \<open>\<open>Evaler.Eval(obj, points...) (results, err)\<close>, over the same world state.\<close>

type_synonym ('w, 'e) Evaler =
  "('w, 'e) Objectiver \<Rightarrow> Point list \<Rightarrow> 'w \<Rightarrow> (Point list \<times> 'e option) \<times> 'w"

record SerialEvaler =
  ContinueOnErr :: bool

text \<open>
  The loop of \<open>SerialEvaler.Eval\<close>: \<open>i\<close> is the index of the point being evaluated and
  \<open>results\<close> the slice allocated before the loop, updated in place at \<open>i\<close>.
\<close>

fun serial_loop ::
  "bool \<Rightarrow> ('w, 'e) Objectiver \<Rightarrow> Point list \<Rightarrow> nat \<Rightarrow> Point list \<Rightarrow> 'w
     \<Rightarrow> (Point list \<times> 'e option) \<times> 'w" where
  "serial_loop c obj [] i results w = ((results, None), w)"
| "serial_loop c obj (p # ps) i results w =
     (case obj (Pos p) w of
        ((v, err), w') \<Rightarrow>
          let results' = results[i := \<lparr>Pos = Pos p, Val = v\<rparr>]
          in if err \<noteq> None \<and> \<not> c then ((results', err), w')
             else serial_loop c obj ps (Suc i) results' w')"

definition SerialEvaler_Eval :: "SerialEvaler \<Rightarrow> ('w, 'e) Evaler" where
  "SerialEvaler_Eval sev obj points w =
     serial_loop (ContinueOnErr sev) obj points 0 (replicate (length points) zeroPoint) w"

text \<open>
  The values and the final state produced by calling an objective on every point of a
  batch in order, whatever errors it reports.
\<close>

fun objective_run :: "('w, 'e) Objectiver \<Rightarrow> Point list \<Rightarrow> 'w \<Rightarrow> Point list \<times> 'w" where
  "objective_run obj [] w = ([], w)"
| "objective_run obj (p # ps) w =
     (case obj (Pos p) w of
        ((v, err), w') \<Rightarrow>
          (case objective_run obj ps w' of
             (rs, w'') \<Rightarrow> (\<lparr>Pos = Pos p, Val = v\<rparr> # rs, w'')))"

text \<open>
  An objective for the scenarios: the value is the first coordinate, the evaluation
  fails with the coordinate vector as its error when that vector is in \<open>bad\<close>, and the
  state counts the calls.
\<close>

definition failing_on :: "real list list \<Rightarrow> (nat, real list) Objectiver" where
  "failing_on bad v n = ((hd (v @ [0]), if v \<in> set bad then Some v else None), Suc n)"


subsection \<open>The caching evaluator\<close>

text \<open>
  \<open>hashPoint\<close> is the SHA-1 digest of the big-endian IEEE-754 bit patterns of the
  coordinates. The digest comes from the standard library, so it is the parameter \<open>h\<close>, a
  function of the coordinate vector; nothing is assumed about collisions.
\<close>

definition hashPoint :: "(real list \<Rightarrow> 'k) \<Rightarrow> Point \<Rightarrow> 'k" where
  "hashPoint h p = h (Pos p)"

record ('k, 'w, 'e) CacheEvaler =
  ev :: "('w, 'e) Evaler"
  cache :: "'k \<rightharpoonup> real"


text \<open>
  The first loop of \<open>CacheEvaler.Eval\<close>: a point found in the cache is appended to
  \<open>results\<close> with the cached value, any other point to \<open>newp\<close>.
\<close>

fun cache_lookup ::
  "(real list \<Rightarrow> 'k) \<Rightarrow> ('k \<rightharpoonup> real) \<Rightarrow> Point list \<Rightarrow> Point list \<times> Point list
     \<Rightarrow> Point list \<times> Point list" where
  "cache_lookup h c [] (results, newp) = (results, newp)"
| "cache_lookup h c (p # ps) (results, newp) =
     (case c (hashPoint h p) of
        Some val \<Rightarrow> cache_lookup h c ps (results @ [\<lparr>Pos = Pos p, Val = val\<rparr>], newp)
      | None \<Rightarrow> cache_lookup h c ps (results, newp @ [p]))"

text \<open>The second loop: every point the wrapped evaluator returned is stored.\<close>

fun cache_insert :: "(real list \<Rightarrow> 'k) \<Rightarrow> Point list \<Rightarrow> ('k \<rightharpoonup> real) \<Rightarrow> ('k \<rightharpoonup> real)" where
  "cache_insert h [] c = c"
| "cache_insert h (p # ps) c = cache_insert h ps (c(hashPoint h p \<mapsto> Val p))"

text \<open>
  The Go map is shared through the value receiver, so the writes of the second loop
  outlive the call: the model returns the evaluator with its new cache.
\<close>

definition CacheEvaler_Eval ::
  "(real list \<Rightarrow> 'k) \<Rightarrow> ('k, 'w, 'e) CacheEvaler \<Rightarrow> ('w, 'e) Objectiver \<Rightarrow> Point list \<Rightarrow> 'w
     \<Rightarrow> (Point list \<times> 'e option) \<times> (('k, 'w, 'e) CacheEvaler \<times> 'w)" where
  "CacheEvaler_Eval h cev obj points w =
     (case cache_lookup h (cache cev) points ([], []) of
        (results, newp) \<Rightarrow>
          (case ev cev obj newp w of
             ((newresults, err), w') \<Rightarrow>
               ((results @ newresults, err),
                (cev\<lparr>cache := cache_insert h newresults (cache cev)\<rparr>, w'))))"



definition ErringEvaler_Eval :: "'e \<Rightarrow> ('w, 'e) Evaler" where
  "ErringEvaler_Eval e obj points w =
     (case SerialEvaler_Eval \<lparr>ContinueOnErr = True\<rparr> obj points w of
        ((results, err), w') \<Rightarrow> ((results, Some e), w'))"

section \<open>Meshes (package mesh)\<close>

text \<open>Every \<open>panic\<close> of the packages is a value of this type.\<close>

datatype panic =
    OriginLen nat nat
  | BasisInversion
  | BoundsLen
  | ShapeMismatch
  | IndexOutOfRange

text \<open>
  A \<open>mat64.Dense\<close> is the list of its rows. Of the matrix library the model uses the
  product with a column vector, which panics when the shapes disagree; the inversion
  \<open>mat64.Inverse\<close> is a parameter of \<open>Nearest\<close> (\<open>None\<close> is its error).
\<close>

type_synonym matrix = "real list list"

definition mulv :: "matrix \<Rightarrow> real list \<Rightarrow> panic + real list" where
  "mulv a v =
     (if list_all (\<lambda>row. length row = length v) a
      then Inr (map (\<lambda>row. sum_list (map2 (\<lambda>x y. x * y) row v)) a)
      else Inl ShapeMismatch)"

text \<open>
  \<open>math.Modf\<close>: the integer and the fractional part, both with the sign of the argument.
\<close>

definition Modf :: "real \<Rightarrow> real \<times> real" where
  "Modf f = (let n = (if 0 \<le> f then of_int \<lfloor>f\<rfloor> else of_int \<lceil>f\<rceil>) in (n, f - n))"

record Infinite =
  Center :: "real list"
  Basis :: "matrix option"
  StepSize :: real
  inverter :: "matrix option"

text \<open>The body of the rounding loop of \<open>Infinite.Nearest\<close> at one local coordinate.\<close>

definition nearest_coord :: "real \<Rightarrow> real \<Rightarrow> real" where
  "nearest_coord step x =
     (case Modf (x / step) of
        (n, rem) \<Rightarrow> (if rem / step > 0.5 then n + 1 else n) * step)"

text \<open>Sequencing of steps that may panic.\<close>

definition and_then :: "panic + 'a \<Rightarrow> ('a \<Rightarrow> panic + 'b) \<Rightarrow> panic + 'b" where
  "and_then r f = (case r of Inl e \<Rightarrow> Inl e | Inr a \<Rightarrow> f a)"

text \<open>
  \<open>Infinite.Nearest\<close> fixes the origin and caches the inverse of the basis on first
  use, so it returns the mesh together with the point. Its steps, in the order of the
  source: the set-up of origin and inverter, the translation and rotation into mesh
  coordinates, the rounding, and the way back.
\<close>

definition set_up :: "(matrix \<Rightarrow> matrix option) \<Rightarrow> Infinite \<Rightarrow> real list \<Rightarrow> panic + Infinite" where
  "set_up Inverse m p =
     (let m1 = (if length (Center m) = 0 then m\<lparr>Center := replicate (length p) 0\<rparr> else m)
      in if Basis m1 \<noteq> None \<and> inverter m1 = None
         then (case Inverse (the (Basis m1)) of
                 None \<Rightarrow> Inl BasisInversion
               | Some i \<Rightarrow> Inr (m1\<lparr>inverter := Some i\<rparr>))
         else Inr m1)"

definition to_local :: "Infinite \<Rightarrow> real list \<Rightarrow> panic + real list" where
  "to_local m p =
     (let newp = map2 (\<lambda>x c. x - c) p (Center m)
      in case inverter m of None \<Rightarrow> Inr newp | Some i \<Rightarrow> mulv i newp)"

definition round_local :: "Infinite \<Rightarrow> real list \<Rightarrow> panic + real list" where
  "round_local m rotv =
     (if length rotv < length (Center m) then Inl IndexOutOfRange
      else Inr (map (nearest_coord (StepSize m)) (take (length (Center m)) rotv)))"

definition from_local :: "Infinite \<Rightarrow> real list \<Rightarrow> panic + real list" where
  "from_local m nearest =
     and_then (case Basis m of None \<Rightarrow> Inr nearest | Some b \<Rightarrow> mulv b nearest)
       (\<lambda>nv. if length (Center m) < length nv then Inl IndexOutOfRange
             else Inr (map2 (\<lambda>x c. x + c) nv (Center m)))"

definition Infinite_Nearest ::
  "(matrix \<Rightarrow> matrix option) \<Rightarrow> Infinite \<Rightarrow> real list \<Rightarrow> panic + (real list \<times> Infinite)" where
  "Infinite_Nearest Inverse m p =
     (if StepSize m = 0 then Inr (p, m)
      else if length (Center m) \<noteq> 0 \<and> length (Center m) \<noteq> length p
        then Inl (OriginLen (length (Center m)) (length p))
      else
        and_then (set_up Inverse m p) (\<lambda>m2.
        and_then (to_local m2 p) (\<lambda>rotv.
        and_then (round_local m2 rotv) (\<lambda>nearest.
        and_then (from_local m2 nearest) (\<lambda>nv. Inr (nv, m2))))))"

text \<open>
  The mesh interface with its implementations: the unbounded grid, and the wrappers
  \<open>Bounded\<close> (lower and upper bounds) and \<open>Integer\<close>. (\<open>Constr\<close> projects with a function
  that is not part of these sources and is left out.)
\<close>

datatype Mesh =
    InfiniteMesh Infinite
  | BoundedMesh "real list" "real list" Mesh
  | IntegerMesh Mesh

fun Step :: "Mesh \<Rightarrow> real" where
  "Step (InfiniteMesh m) = StepSize m"
| "Step (BoundedMesh lower upper m) = Step m"
| "Step (IntegerMesh m) = Step m"

text \<open>The clamping loop of \<open>Bounded.Nearest\<close>; a bound vector that is too short panics.\<close>

definition bounded_clamp :: "real list \<Rightarrow> real list \<Rightarrow> real list \<Rightarrow> panic + real list" where
  "bounded_clamp lower upper p =
     (if length lower < length p \<or> length upper < length p then Inl IndexOutOfRange
      else Inr (map (\<lambda>i. min (upper ! i) (max (lower ! i) (p ! i))) [0..<length p]))"

fun Nearest :: "(matrix \<Rightarrow> matrix option) \<Rightarrow> Mesh \<Rightarrow> real list \<Rightarrow> panic + (real list \<times> Mesh)" where
  "Nearest Inverse (InfiniteMesh m) p =
     (case Infinite_Nearest Inverse m p of
        Inl e \<Rightarrow> Inl e
      | Inr (q, m') \<Rightarrow> Inr (q, InfiniteMesh m'))"
| "Nearest Inverse (BoundedMesh lower upper m) p =
     (case bounded_clamp lower upper p of
        Inl e \<Rightarrow> Inl e
      | Inr pdup \<Rightarrow>
          (case Nearest Inverse m pdup of
             Inl e \<Rightarrow> Inl e
           | Inr (q, m') \<Rightarrow> Inr (q, BoundedMesh lower upper m')))"
| "Nearest Inverse (IntegerMesh m) p =
     (case Nearest Inverse m p of
        Inl e \<Rightarrow> Inl e
      | Inr (gridp, m') \<Rightarrow> Inr (map (\<lambda>x. of_int \<lfloor>x + 0.5\<rfloor>) gridp, IntegerMesh m'))"

text \<open>
  \<open>NewBounded\<close> probes the mesh with the lower bounds, which panics when their number
  does not fit the mesh; the probe may fix the origin of the mesh, and the bounded mesh
  holds the mesh as the probe left it.
\<close>

definition NewBounded ::
  "(matrix \<Rightarrow> matrix option) \<Rightarrow> Mesh \<Rightarrow> real list \<Rightarrow> real list \<Rightarrow> panic + Mesh" where
  "NewBounded Inverse m lower upper =
     (if length lower \<noteq> length upper then Inl BoundsLen
      else case Nearest Inverse m lower of
             Inl e \<Rightarrow> Inl e
           | Inr (q, m') \<Rightarrow> Inr (BoundedMesh lower upper m'))"

text \<open>
  The rounding as the specification words it: \<open>q\<close> is the integer part of \<open>x / step\<close>,
  and one more step is taken exactly when what is left of \<open>x\<close> after \<open>q\<close> whole steps
  exceeds half the step size.
\<close>

definition spec_nearest_coord :: "real \<Rightarrow> real \<Rightarrow> real" where
  "spec_nearest_coord step x =
     (let q = fst (Modf (x / step));
          c = (if x - q * step > step / 2 then 1 else 0)
      in (q + c) * step)"

section \<open>Particle swarm (package pswarm)\<close>

text \<open>
  Modelled from the spec: the accessors \<open>Len\<close> and \<open>At\<close> and the constructor
  \<open>NewPoint\<close> of \<open>optim.Point\<close>, which the swarm code calls and these sources do not
  declare. A point is its coordinate vector and its value, and a personal best without
  coordinates is the unset one: \<open>Len\<close> is the number of coordinates, \<open>At\<close> the
  coordinate at an index (read only below a bounds check, out of range being a panic),
  \<open>NewPoint\<close> the point with the given coordinates and value.
\<close>

definition Len :: "Point \<Rightarrow> nat" where
  "Len pt = length (Pos pt)"

definition At :: "Point \<Rightarrow> nat \<Rightarrow> real" where
  "At pt i = Pos pt ! i"

definition NewPoint :: "real list \<Rightarrow> real \<Rightarrow> Point" where
  "NewPoint pos val = \<lparr>Pos = pos, Val = val\<rparr>"

record Particle =
  Id :: int
  Point :: Point
  Vel :: "real list"
  Best :: Point

definition Update :: "Particle \<Rightarrow> Point \<Rightarrow> Particle" where
  "Update p newp =
     (let p1 = p\<lparr>Point := (Point p)\<lparr>Val := Val newp\<rparr>\<rparr>
      in if Val (Point p1) < Val (Best p1) \<or> Len (Best p1) = 0
         then p1\<lparr>Best := newp\<rparr> else p1)"

text \<open>A population is the list of its particles; \<open>Best\<close> panics on an empty one.\<close>

type_synonym Population = "Particle list"

definition Population_Best :: "Population \<Rightarrow> panic + Point" where
  "Population_Best pop =
     (case pop of
        [] \<Rightarrow> Inl IndexOutOfRange
      | p0 # rest \<Rightarrow>
          Inr (foldl (\<lambda>best p. if Val (Best p) < Val best then Best p else best) (Best p0) rest))"

definition DefaultCognition :: real where "DefaultCognition = 0.5"
definition DefaultSocial :: real where "DefaultSocial = 0.5"
definition DefaultInertia :: real where "DefaultInertia = 0.9"

text \<open>
  \<open>InertiaFn\<close> is a closure without arguments and \<open>Rng\<close> a random generator: each is
  the stream of the values its successive calls return, and \<open>None\<close> is \<open>nil\<close>.
\<close>

record SimpleMover =
  Cognition :: real
  Social :: real
  Vmax :: real
  InertiaFn :: "real stream option"
  Rng :: "real stream option"

definition Speed :: "real list \<Rightarrow> real" where
  "Speed vel = sqrt (foldl (\<lambda>tot v. tot + v * v) 0 vel)"

text \<open>
  The velocity loop of \<open>SimpleMover.Move\<close> for one particle, over the indices of
  \<open>p.Vel\<close>. The slice is updated in place, so \<open>currv\<close> is read from the current
  velocity; \<open>inertia\<close> is what is left of the stream of \<open>InertiaFn\<close>.
\<close>

fun velocity_loop ::
  "SimpleMover \<Rightarrow> real \<Rightarrow> real \<Rightarrow> real \<Rightarrow> Point \<Rightarrow> Point \<Rightarrow> nat list \<Rightarrow> real list \<Rightarrow> real stream
     \<Rightarrow> panic + (real list \<times> real stream)" where
  "velocity_loop mv vmax w1 w2 best pt [] vel inertia = Inr (vel, inertia)"
| "velocity_loop mv vmax w1 w2 best pt (i # is) vel inertia =
     (if Len best \<le> i \<or> Len pt \<le> i then Inl IndexOutOfRange
      else
        let currv = vel ! i;
            vel1 = vel[i := shd inertia * currv
                        + Cognition mv * w1 * (At best i - At pt i)
                        + Social mv * w2 * (At best i - At pt i)];
            s = Speed vel1;
            vel2 = (if Vmax mv > 0 \<and> Speed vel1 > Vmax mv
                    then map (\<lambda>v. v * (vmax / s)) vel1 else vel1)
        in velocity_loop mv vmax w1 w2 best pt is vel2 (stl inertia))"

text \<open>The body of the loop over the population: one particle, with the two draws.\<close>

definition move_particle ::
  "SimpleMover \<Rightarrow> Point \<Rightarrow> Particle \<Rightarrow> real stream \<Rightarrow> real stream
     \<Rightarrow> panic + (Particle \<times> real stream \<times> real stream)" where
  "move_particle mv best p inertia rng =
     (let vmax = (if Vmax mv = 0 then 1.5 * Speed (Vel p) else Vmax mv);
          w1 = shd rng;
          w2 = shd (stl rng)
      in and_then
           (velocity_loop mv vmax w1 w2 best (Point p) [0..<length (Vel p)] (Vel p) inertia)
           (\<lambda>(vel, inertia').
              if length vel < Len (Point p) then Inl IndexOutOfRange
              else
                let pos = map (\<lambda>i. At (Point p) i + vel ! i) [0..<Len (Point p)]
                in Inr (p\<lparr>Vel := vel, Point := NewPoint pos (Val (Point p))\<rparr>,
                        inertia', stl (stl rng))))"

fun move_loop ::
  "SimpleMover \<Rightarrow> Point \<Rightarrow> Particle list \<Rightarrow> real stream \<Rightarrow> real stream
     \<Rightarrow> panic + (Particle list \<times> real stream \<times> real stream)" where
  "move_loop mv best [] inertia rng = Inr ([], inertia, rng)"
| "move_loop mv best (p # ps) inertia rng =
     and_then (move_particle mv best p inertia rng)
       (\<lambda>(p', inertia', rng').
          and_then (move_loop mv best ps inertia' rng')
            (\<lambda>(ps', inertia'', rng''). Inr (p' # ps', inertia'', rng'')))"

text \<open>
  \<open>SimpleMover.Move\<close>. The generator \<open>rand.New(rand.NewSource(1))\<close> of the standard
  library is the parameter \<open>seed1\<close>. The mover keeps its generator and its inertia
  function, as far as they have been consumed.
\<close>

definition Move ::
  "real stream \<Rightarrow> SimpleMover \<Rightarrow> Population \<Rightarrow> panic + (SimpleMover \<times> Population)" where
  "Move seed1 mv pop =
     (let mv1 = (if Rng mv = None then mv\<lparr>Rng := Some seed1\<rparr> else mv);
          mv2 = (if InertiaFn mv1 = None then mv1\<lparr>InertiaFn := Some (sconst DefaultInertia)\<rparr>
                 else mv1)
      in and_then (Population_Best pop)
           (\<lambda>best.
              and_then (move_loop mv2 best pop (the (InertiaFn mv2)) (the (Rng mv2)))
                (\<lambda>(pop', inertia', rng').
                   Inr (mv2\<lparr>InertiaFn := Some inertia', Rng := Some rng'\<rparr>, pop'))))"

text \<open>
  The velocity update as the specification words it: every dimension of the new
  velocity is computed first, and the whole vector is rescaled afterwards.
\<close>

definition spec_velocity :: "SimpleMover \<Rightarrow> real \<Rightarrow> real \<Rightarrow> real \<Rightarrow> Point \<Rightarrow> Point \<Rightarrow> real list \<Rightarrow> real list" where
  "spec_velocity mv inertia w1 w2 best pt vel =
     (let full = map (\<lambda>i. inertia * vel ! i
                          + Cognition mv * w1 * (At best i - At pt i)
                          + Social mv * w2 * (At best i - At pt i)) [0..<length vel]
      in if Vmax mv > 0 \<and> Speed full > Vmax mv
         then map (\<lambda>v. v * (Vmax mv / Speed full)) full else full)"

subsection \<open>The swarm iterator\<close>

text \<open>
  A value of the interface \<open>optim.Evaler\<close> is one of the two evaluators of package
  optim or some other implementation, a value of \<open>Mover\<close> the default mover or some
  other implementation; \<open>nil\<close> is \<open>None\<close>.
\<close>

datatype ('k, 'w, 'e, 'x) EvalerValue =
    SerialValue SerialEvaler
  | CacheValue "('k, 'w, 'e) CacheEvaler"
  | OtherEvaler 'x

datatype 'm MoverValue =
    SimpleValue SimpleMover
  | OtherMover 'm

record ('k, 'w, 'e, 'x, 'm) Iterator =
  Pop :: Population
  Evaler :: "('k, 'w, 'e, 'x) EvalerValue"
  Mover :: "'m MoverValue"

definition NewIterator ::
  "Population \<Rightarrow> ('k, 'w, 'e, 'x) EvalerValue option \<Rightarrow> 'm MoverValue option
     \<Rightarrow> ('k, 'w, 'e, 'x, 'm) Iterator" where
  "NewIterator pop e m =
     (let e1 = (case e of None \<Rightarrow> SerialValue \<lparr>ContinueOnErr = False\<rparr> | Some x \<Rightarrow> x);
          m1 = (case m of
                  None \<Rightarrow> SimpleValue \<lparr>Cognition = DefaultCognition, Social = DefaultSocial,
                                        Vmax = 0, InertiaFn = None, Rng = None\<rparr>
                | Some x \<Rightarrow> x)
      in \<lparr>Pop = pop, Evaler = SerialValue \<lparr>ContinueOnErr = False\<rparr>, Mover = m1\<rparr>)"

section \<open>The serial evaluator\<close>

lemma objective_run_length: "length (fst (objective_run obj ps w)) = length ps"
proof (induction ps arbitrary: w)
  case Nil
  then show ?case by simp
next
  case (Cons p ps)
  obtain v err w' where o: "obj (Pos p) w = ((v, err), w')"
    by (metis surj_pair)
  obtain rs w'' where r: "objective_run obj ps w' = (rs, w'')"
    by (metis surj_pair)
  show ?case using Cons.IH [of w'] o r by simp
qed

lemma objective_run_Pos: "map Pos (fst (objective_run obj ps w)) = map Pos ps"
proof (induction ps arbitrary: w)
  case Nil
  then show ?case by simp
next
  case (Cons p ps)
  obtain v err w' where o: "obj (Pos p) w = ((v, err), w')"
    by (metis surj_pair)
  obtain rs w'' where r: "objective_run obj ps w' = (rs, w'')"
    by (metis surj_pair)
  show ?case using Cons.IH [of w'] o r by simp
qed

text \<open>
  With continue-on-error the loop never leaves early: the slots below \<open>i\<close> keep what
  they hold, and the slots from \<open>i\<close> on are filled by evaluating every remaining point.
\<close>

lemma serial_loop_continue:
  "length results = i + length ps \<Longrightarrow>
   serial_loop True obj ps i results w =
     ((take i results @ fst (objective_run obj ps w), None), snd (objective_run obj ps w))"
proof (induction ps arbitrary: i results w)
  case Nil
  then show ?case by simp
next
  case (Cons p ps)
  obtain v err w' where o: "obj (Pos p) w = ((v, err), w')"
    by (metis surj_pair)
  obtain rs w'' where r: "objective_run obj ps w' = (rs, w'')"
    by (metis surj_pair)
  let ?res = "results[i := \<lparr>Pos = Pos p, Val = v\<rparr>]"
  have len: "length ?res = Suc i + length ps" using Cons.prems by simp
  have i: "i < length results" using Cons.prems by simp
  have tk: "take (Suc i) ?res = take i results @ [\<lparr>Pos = Pos p, Val = v\<rparr>]"
    using i by (simp add: take_Suc_conv_app_nth)
  show ?case
    using Cons.IH [OF len, of w'] o r tk by simp
qed

lemma SerialEvaler_Eval_continue:
  "ContinueOnErr sev \<Longrightarrow>
   SerialEvaler_Eval sev obj points w =
     ((fst (objective_run obj points w), None), snd (objective_run obj points w))"
  by (simp add: SerialEvaler_Eval_def serial_loop_continue)

text \<open>In both modes the slice returned has one entry per input point.\<close>

lemma serial_loop_length:
  "length (fst (fst (serial_loop c obj ps i results w))) = length results"
proof (induction ps arbitrary: i results w)
  case Nil
  then show ?case by simp
next
  case (Cons p ps)
  obtain v err w' where o: "obj (Pos p) w = ((v, err), w')"
    by (metis surj_pair)
  show ?case using o Cons.IH [of "Suc i" "results[i := \<lparr>Pos = Pos p, Val = v\<rparr>]" w']
    by (simp add: Let_def)
qed

lemma SerialEvaler_Eval_length:
  "length (fst (fst (SerialEvaler_Eval sev obj points w))) = length points"
  by (simp add: SerialEvaler_Eval_def serial_loop_length)

text \<open>
  C1. For the serial evaluator with continue-on-error disabled, a failure of the
  objective on the \<open>k\<close>-th point makes \<open>Eval\<close> stop at once and return only the results
  evaluated so far, with the error and without placeholder entries: for three points
  with the second failing, exactly one result. The code stops at once and returns the
  error, but it returns the whole slice it allocated before the loop. On the points
  \<open>[1]\<close>, \<open>[2]\<close>, \<open>[3]\<close> with the objective failing on \<open>[2]\<close>, the objective is called
  twice and the result has three entries: the first point evaluated, the failing point
  with the value the objective reported, and the zero value of \<open>Point\<close> for the point
  that was never evaluated.
\<close>

theorem SerialEvaler_Eval_abort_returns_every_slot:
  "SerialEvaler_Eval \<lparr>ContinueOnErr = False\<rparr> (failing_on [[2]])
     [\<lparr>Pos = [1], Val = 0\<rparr>, \<lparr>Pos = [2], Val = 0\<rparr>, \<lparr>Pos = [3], Val = 0\<rparr>] 0
   = (([\<lparr>Pos = [1], Val = 1\<rparr>, \<lparr>Pos = [2], Val = 2\<rparr>, \<lparr>Pos = [], Val = 0\<rparr>], Some [2]), 2)"
  by (simp add: SerialEvaler_Eval_def failing_on_def zeroPoint_def)

text \<open>
  C2, as stated: with continue-on-error enabled and several failing evaluations, the
  error returned is the last failure. It is not: on the points \<open>[1]\<close>, \<open>[2]\<close>, \<open>[3]\<close>
  with the objective failing on \<open>[2]\<close> and on \<open>[3]\<close>, the third call of the objective
  reports an error and \<open>Eval\<close> returns \<open>nil\<close>.
\<close>

theorem SerialEvaler_Eval_continue_last_error_counterexample:
  "snd (fst (failing_on [[2], [3]] [3] 2)) = Some [3] \<and>
   snd (fst (SerialEvaler_Eval \<lparr>ContinueOnErr = True\<rparr> (failing_on [[2], [3]])
     [\<lparr>Pos = [1], Val = 0\<rparr>, \<lparr>Pos = [2], Val = 0\<rparr>, \<lparr>Pos = [3], Val = 0\<rparr>] 0)) = None"
  by (simp add: SerialEvaler_Eval_def failing_on_def zeroPoint_def)

text \<open>
  C2, amended. For the serial evaluator with continue-on-error enabled, \<open>Eval\<close> calls
  the objective on every input point in order and returns one result per input point,
  with the coordinates of that point and the value the objective reported for it; the
  error it returns is always \<open>nil\<close>, whatever the evaluations reported.
\<close>

theorem SerialEvaler_Eval_continue_evaluates_all:
  assumes "ContinueOnErr sev"
  shows "(case SerialEvaler_Eval sev obj points w of
            ((results, err), w') \<Rightarrow>
              err = None \<and> length results = length points
              \<and> map Pos results = map Pos points
              \<and> (results, w') = objective_run obj points w)"
  using assms
  by (simp add: SerialEvaler_Eval_continue objective_run_length objective_run_Pos)

theorem SerialEvaler_Eval_continue_evaluates_all_witness:
  "ContinueOnErr \<lparr>ContinueOnErr = True\<rparr> \<and>
   SerialEvaler_Eval \<lparr>ContinueOnErr = True\<rparr> (failing_on [[2], [3]])
     [\<lparr>Pos = [1], Val = 0\<rparr>, \<lparr>Pos = [2], Val = 0\<rparr>, \<lparr>Pos = [3], Val = 0\<rparr>] 0
   = (([\<lparr>Pos = [1], Val = 1\<rparr>, \<lparr>Pos = [2], Val = 2\<rparr>, \<lparr>Pos = [3], Val = 3\<rparr>], None), 3)"
  using SerialEvaler_Eval_continue_evaluates_all
    [where sev = "\<lparr>ContinueOnErr = True\<rparr>" and obj = "failing_on [[2], [3]]"
       and points = "[\<lparr>Pos = [1], Val = 0\<rparr>, \<lparr>Pos = [2], Val = 0\<rparr>, \<lparr>Pos = [3], Val = 0\<rparr>]"
       and w = "0::nat"]
  by (simp add: failing_on_def split: prod.splits)

section \<open>The caching evaluator\<close>

lemma cache_lookup_eq:
  "cache_lookup h c ps (rs, ns) =
     (rs @ map (\<lambda>p. \<lparr>Pos = Pos p, Val = the (c (hashPoint h p))\<rparr>)
             (filter (\<lambda>p. c (hashPoint h p) \<noteq> None) ps),
      ns @ filter (\<lambda>p. c (hashPoint h p) = None) ps)"
  by (induction ps arbitrary: rs ns) (auto split: option.splits)

lemma cache_insert_other:
  "k \<notin> hashPoint h ` set ps \<Longrightarrow> cache_insert h ps c k = c k"
  by (induction ps arbitrary: c) auto

text \<open>Of several returned points with one digest the last one is the one stored.\<close>

lemma cache_insert_last:
  "p \<in> set ps \<Longrightarrow>
   cache_insert h ps c (hashPoint h p) =
     Some (Val (last (filter (\<lambda>q. hashPoint h q = hashPoint h p) ps)))"
proof (induction ps arbitrary: c p)
  case Nil
  then show ?case by simp
next
  case (Cons q qs)
  show ?case
  proof (cases "hashPoint h p \<in> hashPoint h ` set qs")
    case True
    then obtain r where r: "r \<in> set qs" "hashPoint h r = hashPoint h p" by auto
    then have ne: "filter (\<lambda>q. hashPoint h q = hashPoint h p) qs \<noteq> []"
      by (auto simp: filter_empty_conv)
    have "cache_insert h qs (c(hashPoint h q \<mapsto> Val q)) (hashPoint h r) =
        Some (Val (last (filter (\<lambda>q. hashPoint h q = hashPoint h r) qs)))"
      using Cons.IH [OF r(1)] .
    then show ?thesis using ne r(2) by simp
  next
    case False
    then have e: "filter (\<lambda>q. hashPoint h q = hashPoint h p) qs = []"
      unfolding filter_empty_conv by (metis imageI)
    from False Cons.prems have qp: "hashPoint h q = hashPoint h p" by auto
    show ?thesis using False e qp by (simp add: cache_insert_other)
  qed
qed

text \<open>
  The whole call in one equation: the wrapped evaluator is called once, on the points
  that are not in the cache, in their input order.
\<close>

lemma CacheEvaler_Eval_eq:
  "CacheEvaler_Eval h cev obj points w =
     (case ev cev obj (filter (\<lambda>p. cache cev (hashPoint h p) = None) points) w of
        ((newresults, err), w') \<Rightarrow>
          ((map (\<lambda>p. \<lparr>Pos = Pos p, Val = the (cache cev (hashPoint h p))\<rparr>)
              (filter (\<lambda>p. cache cev (hashPoint h p) \<noteq> None) points) @ newresults, err),
           (cev\<lparr>cache := cache_insert h newresults (cache cev)\<rparr>, w')))"
  by (simp add: CacheEvaler_Eval_def cache_lookup_eq)

lemma SerialEvaler_Eval_Nil: "SerialEvaler_Eval sev obj [] w = (([], None), w)"
  by (simp add: SerialEvaler_Eval_def)


lemma CacheEvaler_Eval_all_cached:
  assumes "ev cev = SerialEvaler_Eval sev"
    and "\<forall>p\<in>set points. cache cev (hashPoint h p) \<noteq> None"
  shows "CacheEvaler_Eval h cev obj points w =
    ((map (\<lambda>p. \<lparr>Pos = Pos p, Val = the (cache cev (hashPoint h p))\<rparr>) points, None), (cev, w))"
proof -
  have "filter (\<lambda>p. cache cev (hashPoint h p) = None) points = []"
    using assms(2) by (simp add: filter_empty_conv)
  moreover have "filter (\<lambda>p. cache cev (hashPoint h p) \<noteq> None) points = points"
    using assms(2) by (simp add: filter_id_conv)
  ultimately show ?thesis
    using assms(1) by (simp add: CacheEvaler_Eval_eq SerialEvaler_Eval_Nil)
qed

text \<open>
  A call on points that are all cached, whatever evaluator is wrapped: the wrapped
  evaluator is still called, on the empty batch, and what it returns for the empty batch
  (results, error, state) comes back behind the cached points.
\<close>

lemma CacheEvaler_Eval_all_cached_any:
  assumes "\<forall>p\<in>set points. cache cev (hashPoint h p) \<noteq> None"
  shows "CacheEvaler_Eval h cev obj points w =
    (case ev cev obj [] w of
       ((newresults, err), w') \<Rightarrow>
         ((map (\<lambda>p. \<lparr>Pos = Pos p, Val = the (cache cev (hashPoint h p))\<rparr>) points @ newresults,
           err),
          (cev\<lparr>cache := cache_insert h newresults (cache cev)\<rparr>, w')))"
proof -
  have "filter (\<lambda>p. cache cev (hashPoint h p) = None) points = []"
    using assms by (simp add: filter_empty_conv)
  moreover have "filter (\<lambda>p. cache cev (hashPoint h p) \<noteq> None) points = points"
    using assms by (simp add: filter_id_conv)
  ultimately show ?thesis
    by (simp add: CacheEvaler_Eval_eq)
qed




text \<open>
  C9, as stated: a later cache hit for a point that was cached from results returned
  with an error returns the stored value with no error. The error of a call is what
  the wrapped evaluator reports, also for the empty batch. With the evaluator that
  always reports an error with its results wrapped, an empty cache and the vector
  \<open>[3]\<close>: the first call returns the value 3 with the error and stores it; the later
  call finds \<open>[3]\<close> in the cache, does not call the objective, returns the stored value
  3, and returns the error again.
\<close>

theorem CacheEvaler_Eval_hit_with_error_counterexample:
  "CacheEvaler_Eval (\<lambda>v. v)
      \<lparr>ev = ErringEvaler_Eval [0], cache = Map.empty\<rparr>
      (failing_on []) [\<lparr>Pos = [3], Val = 0\<rparr>] 0
    = (([\<lparr>Pos = [3], Val = 3\<rparr>], Some [0]),
       (\<lparr>ev = ErringEvaler_Eval [0], cache = [[3] \<mapsto> 3]\<rparr>, 1))
   \<and> CacheEvaler_Eval (\<lambda>v. v)
      \<lparr>ev = ErringEvaler_Eval [0], cache = [[3] \<mapsto> 3]\<rparr>
      (failing_on []) [\<lparr>Pos = [3], Val = 0\<rparr>] 1
    = (([\<lparr>Pos = [3], Val = 3\<rparr>], Some [0]),
       (\<lparr>ev = ErringEvaler_Eval [0], cache = [[3] \<mapsto> 3]\<rparr>, 1))"
  by (simp add: CacheEvaler_Eval_def ErringEvaler_Eval_def SerialEvaler_Eval_def
      failing_on_def hashPoint_def zeroPoint_def)

text \<open>
  C9, amended. When the wrapped evaluator returns results together with an error, every
  point of those results is still stored in the cache under its digest, and the error
  has no influence on what is stored: the new cache is the old one with the returned
  results written into it in order, whatever the error is. A later call answers a
  cached point with the stored value. The error of a call is the one the wrapped
  evaluator reports for the points of the batch that were not cached, for the empty
  batch when all were cached: a cached point brings no error of its own, and the later
  call is without error when the wrapped evaluator reports none for the empty batch, as
  the serial evaluator does.
\<close>

theorem CacheEvaler_Eval_caches_despite_error:
  "snd (fst (CacheEvaler_Eval h cev obj points w))
     = snd (fst (ev cev obj (filter (\<lambda>p. cache cev (hashPoint h p) = None) points) w))
   \<and> (ev cev obj (filter (\<lambda>p. cache cev (hashPoint h p) = None) points) w
         = ((newresults, err), w') \<longrightarrow>
        snd (CacheEvaler_Eval h cev obj points w)
          = (cev\<lparr>cache := cache_insert h newresults (cache cev)\<rparr>, w')
        \<and> (\<forall>q\<in>set newresults.
              cache_insert h newresults (cache cev) (hashPoint h q)
                = Some (Val (last (filter (\<lambda>r. hashPoint h r = hashPoint h q) newresults)))))
   \<and> ((\<forall>q\<in>set later. cache cev (hashPoint h q) \<noteq> None)
        \<and> ev cev obj [] w = ((emptyresults, err0), w0) \<longrightarrow>
        CacheEvaler_Eval h cev obj later w =
          ((map (\<lambda>q. \<lparr>Pos = Pos q, Val = the (cache cev (hashPoint h q))\<rparr>) later
              @ emptyresults, err0),
           (cev\<lparr>cache := cache_insert h emptyresults (cache cev)\<rparr>, w0)))
   \<and> (ev cev = SerialEvaler_Eval sev \<and> (\<forall>q\<in>set later. cache cev (hashPoint h q) \<noteq> None) \<longrightarrow>
        CacheEvaler_Eval h cev obj later w =
          ((map (\<lambda>q. \<lparr>Pos = Pos q, Val = the (cache cev (hashPoint h q))\<rparr>) later, None),
           (cev, w)))"
proof (intro conjI impI ballI)
  show "snd (fst (CacheEvaler_Eval h cev obj points w))
     = snd (fst (ev cev obj (filter (\<lambda>p. cache cev (hashPoint h p) = None) points) w))"
    by (simp add: CacheEvaler_Eval_eq split: prod.splits)
next
  assume "ev cev = SerialEvaler_Eval sev \<and> (\<forall>q\<in>set later. cache cev (hashPoint h q) \<noteq> None)"
  then show "CacheEvaler_Eval h cev obj later w =
      ((map (\<lambda>q. \<lparr>Pos = Pos q, Val = the (cache cev (hashPoint h q))\<rparr>) later, None), (cev, w))"
    by (intro CacheEvaler_Eval_all_cached [where sev = sev]) simp_all
next
  assume b: "(\<forall>q\<in>set later. cache cev (hashPoint h q) \<noteq> None)
        \<and> ev cev obj [] w = ((emptyresults, err0), w0)"
  then have "\<forall>q\<in>set later. cache cev (hashPoint h q) \<noteq> None" by blast
  from CacheEvaler_Eval_all_cached_any [OF this, of obj w] b
  show "CacheEvaler_Eval h cev obj later w =
          ((map (\<lambda>q. \<lparr>Pos = Pos q, Val = the (cache cev (hashPoint h q))\<rparr>) later
              @ emptyresults, err0),
           (cev\<lparr>cache := cache_insert h emptyresults (cache cev)\<rparr>, w0))"
    by simp
next
  assume a: "ev cev obj (filter (\<lambda>p. cache cev (hashPoint h p) = None) points) w
      = ((newresults, err), w')"
  show "snd (CacheEvaler_Eval h cev obj points w)
        = (cev\<lparr>cache := cache_insert h newresults (cache cev)\<rparr>, w')"
    using a by (simp add: CacheEvaler_Eval_eq)
  fix q assume "q \<in> set newresults"
  then show "cache_insert h newresults (cache cev) (hashPoint h q)
       = Some (Val (last (filter (\<lambda>r. hashPoint h r = hashPoint h q) newresults)))"
    by (rule cache_insert_last)
qed

text \<open>
  The amended C9 on two scenarios. The serial evaluator without continue-on-error
  wrapped, the objective failing on \<open>[2]\<close>, the batch \<open>[1]\<close>, \<open>[2]\<close>, \<open>[3]\<close>: the call
  returns the error, the cache holds what the serial evaluator returned, and a later
  call on \<open>[2]\<close> returns the stored value 2 and no error. The evaluator that always
  reports an error wrapped and \<open>[3]\<close> cached: the later call returns the stored value
  3 and the error that evaluator reports for the empty batch.
\<close>

theorem CacheEvaler_Eval_caches_despite_error_witness:
  "SerialEvaler_Eval \<lparr>ContinueOnErr = False\<rparr> (failing_on [[2]])
      [\<lparr>Pos = [1], Val = 0\<rparr>, \<lparr>Pos = [2], Val = 0\<rparr>, \<lparr>Pos = [3], Val = 0\<rparr>] 0
    = (([\<lparr>Pos = [1], Val = 1\<rparr>, \<lparr>Pos = [2], Val = 2\<rparr>, \<lparr>Pos = [], Val = 0\<rparr>], Some [2]), 2)
   \<and> snd (fst (CacheEvaler_Eval (\<lambda>v. v)
        \<lparr>ev = SerialEvaler_Eval \<lparr>ContinueOnErr = False\<rparr>, cache = Map.empty\<rparr> (failing_on [[2]])
        [\<lparr>Pos = [1], Val = 0\<rparr>, \<lparr>Pos = [2], Val = 0\<rparr>, \<lparr>Pos = [3], Val = 0\<rparr>] 0)) = Some [2]
   \<and> snd (CacheEvaler_Eval (\<lambda>v. v)
        \<lparr>ev = SerialEvaler_Eval \<lparr>ContinueOnErr = False\<rparr>, cache = Map.empty\<rparr> (failing_on [[2]])
        [\<lparr>Pos = [1], Val = 0\<rparr>, \<lparr>Pos = [2], Val = 0\<rparr>, \<lparr>Pos = [3], Val = 0\<rparr>] 0)
      = (\<lparr>ev = SerialEvaler_Eval \<lparr>ContinueOnErr = False\<rparr>,
           cache = [[1] \<mapsto> 1, [2] \<mapsto> 2, [] \<mapsto> 0]\<rparr>, 2)
   \<and> CacheEvaler_Eval (\<lambda>v. v)
        \<lparr>ev = SerialEvaler_Eval \<lparr>ContinueOnErr = False\<rparr>,
           cache = [[1] \<mapsto> 1, [2] \<mapsto> 2, [] \<mapsto> 0]\<rparr>
        (failing_on [[2]]) [\<lparr>Pos = [2], Val = 0\<rparr>] 2
      = (([\<lparr>Pos = [2], Val = 2\<rparr>], None),
         (\<lparr>ev = SerialEvaler_Eval \<lparr>ContinueOnErr = False\<rparr>,
            cache = [[1] \<mapsto> 1, [2] \<mapsto> 2, [] \<mapsto> 0]\<rparr>, 2))
   \<and> ErringEvaler_Eval [0] (failing_on []) [] (1::nat) = (([], Some [0]), 1)
   \<and> CacheEvaler_Eval (\<lambda>v. v)
        \<lparr>ev = ErringEvaler_Eval [0], cache = [[3] \<mapsto> 3]\<rparr>
        (failing_on []) [\<lparr>Pos = [3], Val = 0\<rparr>] 1
      = (([\<lparr>Pos = [3], Val = 3\<rparr>], Some [0]),
         (\<lparr>ev = ErringEvaler_Eval [0], cache = [[3] \<mapsto> 3]\<rparr>, 1))"
proof -
  let ?sev = "\<lparr>ContinueOnErr = False\<rparr>"
  let ?cev = "\<lparr>ev = SerialEvaler_Eval ?sev, cache = (Map.empty :: real list \<rightharpoonup> real)\<rparr>"
  let ?cev1 = "\<lparr>ev = SerialEvaler_Eval ?sev,
                 cache = [[1] \<mapsto> 1, [2] \<mapsto> 2, [] \<mapsto> (0::real)]\<rparr>"
  let ?err = "\<lparr>ev = ErringEvaler_Eval [0], cache = [[3] \<mapsto> (3::real)]\<rparr>
                :: (real list, nat, real list) CacheEvaler"
  let ?ps = "[\<lparr>Pos = [1], Val = 0\<rparr>, \<lparr>Pos = [2], Val = 0\<rparr>, \<lparr>Pos = [3], Val = 0\<rparr>]"
  let ?nr = "[\<lparr>Pos = [1], Val = 1\<rparr>, \<lparr>Pos = [2], Val = 2\<rparr>, \<lparr>Pos = [], Val = 0\<rparr>]"
  have inner: "SerialEvaler_Eval ?sev (failing_on [[2]]) ?ps 0 = ((?nr, Some [2]), 2)"
    by (simp add: SerialEvaler_Eval_def failing_on_def zeroPoint_def)
  have hyp1: "ev ?cev (failing_on [[2]])
      (filter (\<lambda>p. cache ?cev (hashPoint (\<lambda>v. v) p) = None) ?ps) 0 = ((?nr, Some [2]), 2)"
    using inner by simp
  have hyp2: "ev ?cev1 = SerialEvaler_Eval ?sev
      \<and> (\<forall>q\<in>set [\<lparr>Pos = [2], Val = 0\<rparr>]. cache ?cev1 (hashPoint (\<lambda>v. v) q) \<noteq> None)"
    by (simp add: hashPoint_def)
  have empty: "ErringEvaler_Eval [0] (failing_on []) [] (1::nat) = (([], Some [0]), 1)"
    by (simp add: ErringEvaler_Eval_def SerialEvaler_Eval_def)
  have hyp3: "(\<forall>q\<in>set [\<lparr>Pos = [3], Val = 0\<rparr>]. cache ?err (hashPoint (\<lambda>v. v) q) \<noteq> None)
      \<and> ev ?err (failing_on []) [] 1 = (([], Some [0]), 1)"
    using empty by (simp add: hashPoint_def)
  have ins: "cache_insert (\<lambda>v. v) ?nr Map.empty = [[1] \<mapsto> 1, [2] \<mapsto> 2, [] \<mapsto> 0]"
    by (simp add: hashPoint_def)
  note all = CacheEvaler_Eval_caches_despite_error
      [where h = "\<lambda>v. v" and cev = ?cev and obj = "failing_on [[2]]"
         and points = ?ps and w = 0 and newresults = ?nr and err = "Some [2]" and w' = 2]
  note error = all [THEN conjunct1]
  note stored = all [THEN conjunct2, THEN conjunct1, rule_format, OF hyp1]
  note later = CacheEvaler_Eval_caches_despite_error
      [where h = "\<lambda>v. v" and cev = ?cev1 and sev = ?sev and obj = "failing_on [[2]]"
         and later = "[\<lparr>Pos = [2], Val = 0\<rparr>]" and w = 2,
       THEN conjunct2, THEN conjunct2, THEN conjunct2, rule_format, OF hyp2]
  note erring = CacheEvaler_Eval_caches_despite_error
      [where h = "\<lambda>v. v" and cev = ?err and obj = "failing_on []"
         and later = "[\<lparr>Pos = [3], Val = 0\<rparr>]" and w = 1
         and emptyresults = "[]" and ?err0.0 = "Some [0]" and ?w0.0 = 1,
       THEN conjunct2, THEN conjunct2, THEN conjunct1, rule_format, OF hyp3]
  show ?thesis
    using inner empty error stored later erring ins by (simp add: hashPoint_def)
qed

section \<open>Rounding to the grid\<close>

lemma Modf_of_int: "Modf (of_int k) = (of_int k, 0)"
  by (simp add: Modf_def)

text \<open>At step 1 the rounding of the code is the rounding described.\<close>

lemma nearest_coord_step_1: "nearest_coord 1 x = spec_nearest_coord 1 x"
  by (simp add: nearest_coord_def spec_nearest_coord_def Modf_def Let_def)

text \<open>The result is a whole number of steps, and such a coordinate is left alone.\<close>

lemma nearest_coord_grid:
  "s \<noteq> 0 \<Longrightarrow> nearest_coord s (of_int k * s) = of_int k * s"
  by (simp add: nearest_coord_def Modf_of_int)

lemma nearest_coord_is_grid:
  "\<exists>k. nearest_coord s x = of_int k * s"
proof -
  obtain n r where m: "Modf (x / s) = (n, r)" by (metis surj_pair)
  then obtain j :: int where j: "n = of_int j"
    by (auto simp: Modf_def Let_def split: if_splits)
  show ?thesis
  proof (cases "r / s > 0.5")
    case True
    then have "nearest_coord s x = of_int (j + 1) * s"
      using m j by (simp add: nearest_coord_def)
    then show ?thesis by blast
  next
    case False
    then have "nearest_coord s x = of_int j * s"
      using m j by (simp add: nearest_coord_def)
    then show ?thesis by blast
  qed
qed

lemma grid_fixed:
  assumes "s \<noteq> 0" and "\<forall>x\<in>set g. \<exists>k. x = of_int k * s"
  shows "map (nearest_coord s) g = g"
proof -
  have "nearest_coord s x = x" if "x \<in> set g" for x
    using assms that nearest_coord_grid [of s] by auto
  then show ?thesis by (simp add: map_idI)
qed

lemma map2_add_sub:
  "length xs = length cs \<Longrightarrow>
   map2 (\<lambda>x c. x - c) (map2 (\<lambda>x c. x + c) xs cs) cs = (xs :: real list)"
  by (induction xs cs rule: list_induct2) simp_all

lemma and_then_Inr:
  "and_then r f = Inr y \<longleftrightarrow> (\<exists>a. r = Inr a \<and> f a = Inr y)"
  by (cases r) (simp_all add: and_then_def)

lemma set_up_steady:
  assumes "set_up Inverse m p = Inr m'"
    and "length (Center m) = 0 \<or> length (Center m) = length p"
  shows "length (Center m') = length p" and "StepSize m' = StepSize m"
    and "Basis m' = Basis m"
  using assms
  by (auto simp: set_up_def Let_def split: if_splits option.splits)

lemma mulv_length: "mulv a v = Inr u \<Longrightarrow> length u = length a"
  by (auto simp: mulv_def split: if_splits)

text \<open>
  In exact arithmetic the unbounded mesh by itself is idempotent: a point it returned
  is returned again, and the mesh stays as the first call left it. With a basis this
  needs the basis to have one row per dimension and the cached inverter to undo the
  basis.
\<close>

lemma Infinite_Nearest_idempotent:
  assumes step: "StepSize m \<noteq> 0"
    and first: "Infinite_Nearest Inverse m p = Inr (q, m')"
    and nobasis: "Basis m' = None \<Longrightarrow> inverter m' = None"
    and basis: "\<And>b. Basis m' = Some b \<Longrightarrow>
       length b = length p \<and>
       (\<exists>i. inverter m' = Some i \<and>
            (\<forall>g v. length g = length p \<longrightarrow> mulv b g = Inr v \<longrightarrow> mulv i v = Inr g))"
  shows "Infinite_Nearest Inverse m' q = Inr (q, m')"
proof -
  let ?n = "length p"
  let ?s = "StepSize m"
  from first step have len: "length (Center m) = 0 \<or> length (Center m) = ?n"
    by (auto simp: Infinite_Nearest_def split: if_splits)
  from first step len obtain rotv g where
    su: "set_up Inverse m p = Inr m'" and
    tl: "to_local m' p = Inr rotv" and
    rl: "round_local m' rotv = Inr g" and
    fl: "from_local m' g = Inr q"
    by (auto simp: Infinite_Nearest_def and_then_Inr split: if_splits)
  note st = set_up_steady [OF su len]
  let ?C = "Center m'"
  from rl have g: "g = map (nearest_coord ?s) (take ?n rotv)" and rlen: "?n \<le> length rotv"
    by (auto simp: round_local_def st split: if_splits)
  have glen: "length g = ?n" using g rlen by simp
  have grid: "\<forall>x\<in>set g. \<exists>k. x = of_int k * ?s"
    using g nearest_coord_is_grid [of ?s] by auto
  have gfix: "map (nearest_coord ?s) g = g"
    using step grid by (rule grid_fixed)
  from fl obtain nv where
    nv: "(case Basis m' of None \<Rightarrow> Inr g | Some b \<Rightarrow> mulv b g) = Inr nv" and
    q: "q = map2 (\<lambda>x c. x + c) nv ?C" and nvle: "length nv \<le> length ?C"
    by (auto simp: from_local_def and_then_Inr split: if_splits)
  have nvlen: "length nv = ?n"
  proof (cases "Basis m'")
    case None
    then show ?thesis using nv glen by simp
  next
    case (Some b)
    then show ?thesis using nv basis [OF Some] by (simp add: mulv_length)
  qed
  have qlen: "length q = ?n" using q nvlen st(1) by simp
  have sub: "map2 (\<lambda>x c. x - c) q ?C = nv"
    unfolding q using nvlen st(1) by (intro map2_add_sub) simp
  have su2: "set_up Inverse m' q = Inr m'"
  proof (cases "Basis m'")
    case None
    then show ?thesis using st(1) qlen by (auto simp: set_up_def Let_def)
  next
    case (Some b)
    then obtain i where "inverter m' = Some i" using basis by blast
    then show ?thesis using st(1) qlen Some by (auto simp: set_up_def Let_def)
  qed
  have tl2: "to_local m' q = Inr g"
  proof (cases "Basis m'")
    case None
    then have "inverter m' = None" by (rule nobasis)
    then show ?thesis using sub nv None by (simp add: to_local_def)
  next
    case (Some b)
    then obtain i where i: "inverter m' = Some i"
      and inv: "\<forall>g v. length g = ?n \<longrightarrow> mulv b g = Inr v \<longrightarrow> mulv i v = Inr g"
      using basis by blast
    have "mulv b g = Inr nv" using nv Some by simp
    then have "mulv i nv = Inr g" using inv glen by blast
    then show ?thesis using sub i by (simp add: to_local_def)
  qed
  have rl2: "round_local m' g = Inr g"
    using glen gfix st by (simp add: round_local_def)
  show ?thesis
    using step st qlen su2 tl2 rl2 fl
    by (simp add: Infinite_Nearest_def and_then_def)
qed

text \<open>
  C3. For an unbounded mesh with nonzero step, \<open>Nearest\<close> takes each mesh-local
  coordinate \<open>x\<close> to \<open>(q + c) * step\<close>, where \<open>q\<close> is the integer part of \<open>x / step\<close> and
  \<open>c\<close> is 1 exactly when what is left of \<open>x\<close> after \<open>q\<close> whole steps exceeds half the step
  size: rounding to the nearest grid multiple, also for steps other than 1. The code
  divides the fractional part of \<open>x / step\<close> by the step once more before comparing it
  with one half. With step 2 and origin 0 the coordinate 3.5 has \<open>q = 1\<close> and 1.5 left,
  more than half a step, so the rounding described gives 4; the code returns 2.
\<close>

theorem Infinite_Nearest_step_2_rounds_down:
  "Infinite_Nearest (\<lambda>b. None)
     \<lparr>Center = [0], Basis = None, StepSize = 2, inverter = None\<rparr> [3.5]
   = Inr ([2], \<lparr>Center = [0], Basis = None, StepSize = 2, inverter = None\<rparr>)
   \<and> spec_nearest_coord 2 3.5 = 4"
  by (simp add: Infinite_Nearest_def and_then_def set_up_def to_local_def round_local_def
      from_local_def nearest_coord_def spec_nearest_coord_def Modf_def)

text \<open>
  C6. For every mesh with nonzero step, \<open>Nearest\<close> is idempotent. On the integer mesh
  around the unbounded mesh with step 1.75 and origin 0 it is not: \<open>Nearest\<close> takes 5.25
  (a grid point, three steps) to 5, and 5 to 4. The grid point nearest to 5 is 5.25,
  which the integer mesh takes back to 5; the rounding of the unbounded mesh takes 5
  down to 3.5 instead (5 / 1.75 has the fractional part 6/7, which the code divides by
  the step before it compares it with one half).
\<close>

theorem Integer_Nearest_twice_differs:
  "Step (IntegerMesh (InfiniteMesh \<lparr>Center = [0], Basis = None, StepSize = 1.75, inverter = None\<rparr>))
   = 1.75
   \<and> Nearest (\<lambda>b. None)
     (IntegerMesh (InfiniteMesh \<lparr>Center = [0], Basis = None, StepSize = 1.75, inverter = None\<rparr>))
     [5.25]
   = Inr ([5],
       IntegerMesh (InfiniteMesh \<lparr>Center = [0], Basis = None, StepSize = 1.75, inverter = None\<rparr>))
   \<and> Nearest (\<lambda>b. None)
     (IntegerMesh (InfiniteMesh \<lparr>Center = [0], Basis = None, StepSize = 1.75, inverter = None\<rparr>))
     [5]
   = Inr ([4],
       IntegerMesh (InfiniteMesh \<lparr>Center = [0], Basis = None, StepSize = 1.75, inverter = None\<rparr>))"
  by (simp add: Infinite_Nearest_def and_then_def set_up_def to_local_def round_local_def
      from_local_def nearest_coord_def Modf_def)

text \<open>
  C7. For a bounded mesh around a grid mesh with step \<open>s\<close>, every coordinate of
  \<open>Nearest(p)\<close> lies within \<open>[lower - s/2, upper + s/2]\<close>. With the bounds 3.5 and 10
  around the unbounded mesh with step 2 and origin 0, the point 0 is clamped to 3.5 and
  rounded to 2, below \<open>3.5 - 2/2\<close>.
\<close>

theorem Bounded_Nearest_below_lower_bound:
  "NewBounded (\<lambda>b. None)
     (InfiniteMesh \<lparr>Center = [0], Basis = None, StepSize = 2, inverter = None\<rparr>) [3.5] [10]
   = Inr (BoundedMesh [3.5] [10]
       (InfiniteMesh \<lparr>Center = [0], Basis = None, StepSize = 2, inverter = None\<rparr>))
   \<and> Nearest (\<lambda>b. None)
     (BoundedMesh [3.5] [10]
        (InfiniteMesh \<lparr>Center = [0], Basis = None, StepSize = 2, inverter = None\<rparr>)) [0]
   = Inr ([2],
       BoundedMesh [3.5] [10]
         (InfiniteMesh \<lparr>Center = [0], Basis = None, StepSize = 2, inverter = None\<rparr>))
   \<and> (2::real) < 3.5 - 2 / 2"
  by (simp add: NewBounded_def Infinite_Nearest_def and_then_def set_up_def to_local_def
      round_local_def from_local_def nearest_coord_def Modf_def bounded_clamp_def)

section \<open>Particles\<close>

lemma Update_best_le: "Val (Best (Update p q)) \<le> Val (Point (Update p q))"
  by (auto simp: Update_def Let_def)

lemma Update_mono: "Len (Best p) \<noteq> 0 \<Longrightarrow> Val (Best (Update p q)) \<le> Val (Best p)"
  by (auto simp: Update_def Let_def)

lemma Update_unset: "Len (Best p) = 0 \<Longrightarrow> Best (Update p q) = q"
  by (auto simp: Update_def Let_def)

lemma Update_Len: "Len (Best p) \<noteq> 0 \<Longrightarrow> Len q \<noteq> 0 \<Longrightarrow> Len (Best (Update p q)) \<noteq> 0"
  by (auto simp: Update_def Let_def)

lemma Updates_Len:
  "Len (Best p) \<noteq> 0 \<Longrightarrow> \<forall>q\<in>set qs. Len q \<noteq> 0 \<Longrightarrow> Len (Best (foldl Update p qs)) \<noteq> 0"
proof (induction qs arbitrary: p)
  case Nil
  then show ?case by simp
next
  case (Cons q qs)
  have "Len (Best (Update p q)) \<noteq> 0"
    using Cons.prems by (intro Update_Len) simp_all
  moreover have "\<forall>r\<in>set qs. Len r \<noteq> 0" using Cons.prems by simp
  ultimately have "Len (Best (foldl Update (Update p q) qs)) \<noteq> 0"
    by (rule Cons.IH)
  then show ?case by simp
qed

text \<open>
  C8, as stated: across any sequence of calls of \<open>Update\<close> the personal-best value never
  increases. A particle whose personal best is still unset (a point without
  coordinates, here with the value 0 of the zero \<open>Point\<close>) takes the new point as its
  best whatever its value: updated with a point of value 5, its personal-best value
  goes from 0 to 5.
\<close>

theorem Update_best_increases_counterexample:
  "Val (Best \<lparr>Id = 0, Point = \<lparr>Pos = [1], Val = 0\<rparr>, Vel = [0], Best = \<lparr>Pos = [], Val = 0\<rparr>\<rparr>)
   < Val (Best (Update
       \<lparr>Id = 0, Point = \<lparr>Pos = [1], Val = 0\<rparr>, Vel = [0], Best = \<lparr>Pos = [], Val = 0\<rparr>\<rparr>
       \<lparr>Pos = [1], Val = 5\<rparr>))"
  by (simp add: Update_def Len_def)

text \<open>
  C8, amended. After every call of \<open>Update\<close> the personal-best value is at most the
  current value. A call on a particle whose personal best is set (it has coordinates)
  does not increase the personal-best value, and a call on a particle whose personal
  best is unset makes the new point the personal best. So from a particle with a set
  personal best, across any sequence of calls with points that have coordinates, the
  personal-best value never increases from one call to the next.
\<close>

theorem Update_personal_best:
  "Val (Best (Update p q)) \<le> Val (Point (Update p q))
   \<and> (Len (Best p) \<noteq> 0 \<longrightarrow> Val (Best (Update p q)) \<le> Val (Best p))
   \<and> (Len (Best p) = 0 \<longrightarrow> Best (Update p q) = q)
   \<and> (Len (Best p) \<noteq> 0 \<and> (\<forall>r\<in>set qs. Len r \<noteq> 0) \<longrightarrow>
        Val (Best (foldl Update p (qs @ [q]))) \<le> Val (Best (foldl Update p qs)))"
proof (intro conjI impI)
  show "Val (Best (Update p q)) \<le> Val (Point (Update p q))" by (rule Update_best_le)
  show "Len (Best p) \<noteq> 0 \<Longrightarrow> Val (Best (Update p q)) \<le> Val (Best p)" by (rule Update_mono)
  show "Len (Best p) = 0 \<Longrightarrow> Best (Update p q) = q" by (rule Update_unset)
  assume "Len (Best p) \<noteq> 0 \<and> (\<forall>r\<in>set qs. Len r \<noteq> 0)"
  then have "Len (Best (foldl Update p qs)) \<noteq> 0" by (simp add: Updates_Len)
  then have "Val (Best (Update (foldl Update p qs) q)) \<le> Val (Best (foldl Update p qs))"
    by (rule Update_mono)
  then show "Val (Best (foldl Update p (qs @ [q]))) \<le> Val (Best (foldl Update p qs))" by simp
qed

theorem Update_personal_best_witness:
  "Len (Best \<lparr>Id = 0, Point = \<lparr>Pos = [1], Val = 7\<rparr>, Vel = [0], Best = \<lparr>Pos = [1], Val = 4\<rparr>\<rparr>) \<noteq> 0
   \<and> Len \<lparr>Pos = [2], Val = 3\<rparr> \<noteq> 0
   \<and> Val (Best (foldl Update
        \<lparr>Id = 0, Point = \<lparr>Pos = [1], Val = 7\<rparr>, Vel = [0], Best = \<lparr>Pos = [1], Val = 4\<rparr>\<rparr>
        ([\<lparr>Pos = [2], Val = 3\<rparr>] @ [\<lparr>Pos = [3], Val = 5\<rparr>])))
      \<le> Val (Best (foldl Update
        \<lparr>Id = 0, Point = \<lparr>Pos = [1], Val = 7\<rparr>, Vel = [0], Best = \<lparr>Pos = [1], Val = 4\<rparr>\<rparr>
        [\<lparr>Pos = [2], Val = 3\<rparr>]))
   \<and> Val (Best (Update
        \<lparr>Id = 0, Point = \<lparr>Pos = [1], Val = 7\<rparr>, Vel = [0], Best = \<lparr>Pos = [1], Val = 4\<rparr>\<rparr>
        \<lparr>Pos = [3], Val = 5\<rparr>)) = 4
   \<and> Best (Update
        \<lparr>Id = 0, Point = \<lparr>Pos = [1], Val = 0\<rparr>, Vel = [0], Best = \<lparr>Pos = [], Val = 0\<rparr>\<rparr>
        \<lparr>Pos = [3], Val = 5\<rparr>) = \<lparr>Pos = [3], Val = 5\<rparr>"
proof -
  let ?p = "\<lparr>Id = 0, Point = \<lparr>Pos = [1], Val = 7\<rparr>, Vel = [0], Best = \<lparr>Pos = [1], Val = 4\<rparr>\<rparr>"
  let ?u = "\<lparr>Id = 0, Point = \<lparr>Pos = [1], Val = 0\<rparr>, Vel = [0], Best = \<lparr>Pos = [], Val = 0\<rparr>\<rparr>"
  have h: "Len (Best ?p) \<noteq> 0 \<and> (\<forall>r\<in>set [\<lparr>Pos = [2], Val = 3\<rparr>]. Len r \<noteq> 0)"
    by (simp add: Len_def)
  have u: "Len (Best ?u) = 0" by (simp add: Len_def)
  note seq = Update_personal_best
      [where p = ?p and qs = "[\<lparr>Pos = [2], Val = 3\<rparr>]" and q = "\<lparr>Pos = [3], Val = 5\<rparr>",
       THEN conjunct2, THEN conjunct2, THEN conjunct2, rule_format, OF h]
  note unset = Update_personal_best
      [where p = ?u and q = "\<lparr>Pos = [3], Val = 5\<rparr>",
       THEN conjunct2, THEN conjunct2, THEN conjunct1, rule_format, OF u]
  have v: "Val (Best (Update ?p \<lparr>Pos = [3], Val = 5\<rparr>)) = 4"
    by (simp add: Update_def Len_def)
  show ?thesis using h seq unset v by simp
qed

section \<open>The default mover\<close>

lemma sqrt_100: "sqrt 100 = 10"
  by (rule real_sqrt_unique) simp_all

lemma sqrt_81: "sqrt 81 = 9"
  by (rule real_sqrt_unique) simp_all

lemma sqrt_81_4: "sqrt (81 / 4) = 9 / 2"
  by (rule real_sqrt_unique) (simp_all add: power2_eq_square)

lemma sqrt_25: "sqrt 25 = 5"
  by (rule real_sqrt_unique) simp_all

lemma upt_2: "[0..<2] = [0, Suc 0]"
  by (simp add: upt_rec)

text \<open>
  C5. In the per-particle step of the default mover the velocity is rescaled to the cap
  only after the whole new velocity vector has been computed, only when a fixed maximum
  speed above 0 is configured, and then so that its Euclidean norm equals the cap. In
  the code the test and the rescaling of the whole vector stand inside the loop over
  the dimensions, after the update of each single dimension. A mover with the cap 5 and
  nothing else set (no cognition, no social weight, the default inertia 0.9, the
  default generator, whose draws are multiplied by 0), and one particle with the
  velocity \<open>(0, 10)\<close>: after the first dimension the vector is still \<open>(0, 10)\<close>, of
  speed 10, and is halved to \<open>(0, 5)\<close>; the second dimension is then updated from the
  halved 5 to 4.5, and \<open>Move\<close> leaves the velocity \<open>(0, 4.5)\<close>, of speed 4.5. Computing
  the whole vector first gives \<open>(0, 9)\<close>, of speed above the cap, rescaled to \<open>(0, 5)\<close>,
  of speed 5.
\<close>

theorem SimpleMover_Move_rescales_inside_loop:
  "Move seed1
     \<lparr>Cognition = 0, Social = 0, Vmax = 5, InertiaFn = None, Rng = None\<rparr>
     [\<lparr>Id = 0, Point = \<lparr>Pos = [1, 2], Val = 0\<rparr>, Vel = [0, 10], Best = \<lparr>Pos = [1, 2], Val = 0\<rparr>\<rparr>]
   = Inr (\<lparr>Cognition = 0, Social = 0, Vmax = 5, InertiaFn = Some (sconst DefaultInertia),
           Rng = Some (stl (stl seed1))\<rparr>,
     [\<lparr>Id = 0, Point = \<lparr>Pos = [1, 6.5], Val = 0\<rparr>, Vel = [0, 4.5], Best = \<lparr>Pos = [1, 2], Val = 0\<rparr>\<rparr>])
   \<and> Speed [0, 4.5] = 4.5
   \<and> spec_velocity \<lparr>Cognition = 0, Social = 0, Vmax = 5, InertiaFn = None, Rng = None\<rparr>
        DefaultInertia (shd seed1) (shd (stl seed1))
        \<lparr>Pos = [1, 2], Val = 0\<rparr> \<lparr>Pos = [1, 2], Val = 0\<rparr> [0, 10]
      = [0, 5]
   \<and> Speed [0, 5] = 5"
proof (intro conjI)
  show "Move seed1
     \<lparr>Cognition = 0, Social = 0, Vmax = 5, InertiaFn = None, Rng = None\<rparr>
     [\<lparr>Id = 0, Point = \<lparr>Pos = [1, 2], Val = 0\<rparr>, Vel = [0, 10], Best = \<lparr>Pos = [1, 2], Val = 0\<rparr>\<rparr>]
   = Inr (\<lparr>Cognition = 0, Social = 0, Vmax = 5, InertiaFn = Some (sconst DefaultInertia),
           Rng = Some (stl (stl seed1))\<rparr>,
     [\<lparr>Id = 0, Point = \<lparr>Pos = [1, 6.5], Val = 0\<rparr>, Vel = [0, 4.5], Best = \<lparr>Pos = [1, 2], Val = 0\<rparr>\<rparr>])"
    by (simp add: Move_def Population_Best_def and_then_def move_particle_def Len_def At_def
        NewPoint_def Speed_def DefaultInertia_def sqrt_100 sqrt_81_4 upt_2)
  show "Speed [0, 4.5] = 4.5" by (simp add: Speed_def sqrt_81_4)
  show "spec_velocity \<lparr>Cognition = 0, Social = 0, Vmax = 5, InertiaFn = None, Rng = None\<rparr>
        DefaultInertia (shd seed1) (shd (stl seed1))
        \<lparr>Pos = [1, 2], Val = 0\<rparr> \<lparr>Pos = [1, 2], Val = 0\<rparr> [0, 10]
      = [0, 5]"
    by (simp add: spec_velocity_def At_def Speed_def DefaultInertia_def sqrt_81 upt_2)
  show "Speed [0, 5] = 5" by (simp add: Speed_def sqrt_25)
qed

section \<open>The swarm iterator's evaluator\<close>

text \<open>
  C10. For every call \<open>NewIterator(pop, e, m)\<close> the evaluator of the returned iterator
  is a fresh serial evaluator, whatever the argument \<open>e\<close> is, also when \<open>e\<close> is not
  \<open>nil\<close> (a caching evaluator, say): \<open>e\<close> never becomes the iterator's evaluator.
\<close>

theorem NewIterator_evaler_is_serial:
  "Evaler (NewIterator pop e m) = SerialValue \<lparr>ContinueOnErr = False\<rparr>"
  by (simp add: NewIterator_def Let_def)

end
